theory Spec2Isabelle
  imports Main "HOL-Library.Word" "HOL-Library.Multiset" "HOL-Library.AList"
begin

section \<open>The five-card poker-hand classifier of \<^verbatim>\<open>task/11-katas-2-tasks.js\<close>\<close>

subsection \<open>JavaScript values\<close>

text \<open>
  A JavaScript string is a sequence of UTF-16 code units. The rank symbols are ASCII and
  the four suit glyphs of the examples lie in the basic plane, so each of them is one
  code unit. \<open>===\<close> on strings is equality of the code-unit sequences.
\<close>

type_synonym jsstring = "16 word list"

text \<open>An ASCII string literal of the source.\<close>

definition str :: "string \<Rightarrow> jsstring" where
  "str s = map of_char s"

text \<open>
  \<^verbatim>\<open>xs.slice(start, end)\<close> of arrays and strings: a negative bound counts from the end,
  both bounds are clamped to the length, and an empty range gives the empty sequence.
  \<open>sliceFrom\<close> is the call with \<^verbatim>\<open>end\<close> omitted.
\<close>

definition js_slice :: "'a list \<Rightarrow> int \<Rightarrow> int \<Rightarrow> 'a list" where
  "js_slice xs start end =
     (let len = int (length xs);
          k = (if start < 0 then max (len + start) 0 else min start len);
          final = (if end < 0 then max (len + end) 0 else min end len)
      in take (nat (final - k)) (drop (nat k) xs))"

definition sliceFrom :: "'a list \<Rightarrow> int \<Rightarrow> 'a list" where
  "sliceFrom xs start = js_slice xs start (int (length xs))"

text \<open>
  \<^verbatim>\<open>xs.indexOf(x)\<close>: the first index holding \<open>x\<close>, or \<open>-1\<close>. The argument is an
  option because the source passes \<^verbatim>\<open>rankArray[0]\<close>, which is \<^verbatim>\<open>undefined\<close> on an empty
  array, and no element of an array of strings is \<^verbatim>\<open>undefined\<close>.
\<close>

fun indexOfFrom :: "int \<Rightarrow> 'a list \<Rightarrow> 'a \<Rightarrow> int" where
  "indexOfFrom i [] x = -1"
| "indexOfFrom i (y # ys) x = (if y = x then i else indexOfFrom (i + 1) ys x)"

definition indexOf :: "'a list \<Rightarrow> 'a option \<Rightarrow> int" where
  "indexOf xs v = (case v of None \<Rightarrow> -1 | Some x \<Rightarrow> indexOfFrom 0 xs x)"

text \<open>\<^verbatim>\<open>xs[0]\<close>, with \<open>None\<close> for \<^verbatim>\<open>undefined\<close>.\<close>

definition at0 :: "'a list \<Rightarrow> 'a option" where
  "at0 xs = (case xs of [] \<Rightarrow> None | x # _ \<Rightarrow> Some x)"

text \<open>
  A plain object used as a dictionary is an association list in insertion order with
  pairwise different keys. \<^verbatim>\<open>Object.keys\<close> lists integer-like keys first; the source
  only asks whether some key passes a test and how many do, which no order changes, so
  the model lists the keys in insertion order.
\<close>

type_synonym 'k jsobject = "('k \<times> nat) list"

definition Object_keys :: "'k jsobject \<Rightarrow> 'k list" where
  "Object_keys obj = map fst obj"

text \<open>
  The callback of both \<^verbatim>\<open>reduce\<close> calls:
  \<^verbatim>\<open>{ ...previousValue, [currentValue]: (previousValue[currentValue] || 0) + 1 }\<close>.
  A missing key reads as \<^verbatim>\<open>undefined\<close>, which \<^verbatim>\<open>|| 0\<close> turns into 0; a stored count
  \<open>n\<close> is kept, also when it is 0 (then \<^verbatim>\<open>n || 0\<close> is 0 again). The spread keeps the
  position of a key that is already there and appends a new one. The keys of the source
  are ranks of the table and single code units, none of which names a property inherited
  from \<^verbatim>\<open>Object.prototype\<close>, so a lookup only sees the object's own entries.
\<close>

definition countStep :: "'k \<Rightarrow> 'k jsobject \<Rightarrow> 'k jsobject" where
  "countStep currentValue previousValue =
     AList.update currentValue
       ((case map_of previousValue currentValue of None \<Rightarrow> 0 | Some n \<Rightarrow> n) + 1)
       previousValue"

definition countAll :: "'k list \<Rightarrow> 'k jsobject" where
  "countAll xs = fold countStep xs []"

subsection \<open>The rank enumeration\<close>

datatype RankName =
  StraightFlush | FourOfKind | FullHouse | Flush | Straight
  | ThreeOfKind | TwoPairs | OnePair | HighCard

fun PokerRank :: "RankName \<Rightarrow> int" where
  "PokerRank StraightFlush = 8"
| "PokerRank FourOfKind = 7"
| "PokerRank FullHouse = 6"
| "PokerRank Flush = 5"
| "PokerRank Straight = 4"
| "PokerRank ThreeOfKind = 3"
| "PokerRank TwoPairs = 2"
| "PokerRank OnePair = 1"
| "PokerRank HighCard = 0"

subsection \<open>getPokerHandRank\<close>

definition ranks :: "jsstring list" where
  "ranks = [str ''2'', str ''3'', str ''4'', str ''5'', str ''6'', str ''7'', str ''8'',
            str ''9'', str ''10'', str ''J'', str ''Q'', str ''K'', str ''A'']"

definition getRank :: "jsstring \<Rightarrow> jsstring" where
  "getRank c = js_slice c 0 (-1)"

definition getSuit :: "jsstring \<Rightarrow> jsstring" where
  "getSuit c = sliceFrom c (-1)"

text \<open>
  The two nested \<^verbatim>\<open>for\<close> loops: for each rank in table order, each card of the hand in
  input order is pushed when its rank substring is that rank.
\<close>

definition sortedHand :: "jsstring list \<Rightarrow> jsstring list" where
  "sortedHand hand =
     fold (\<lambda>r sH. fold (\<lambda>c sH. if r = getRank c then sH @ [c] else sH) hand sH)
       ranks []"

definition rankArray :: "jsstring list \<Rightarrow> jsstring list" where
  "rankArray hand = map getRank (sortedHand hand)"

definition suitArray :: "jsstring list \<Rightarrow> jsstring list" where
  "suitArray hand = map getSuit (sortedHand hand)"

definition countSuites :: "jsstring list \<Rightarrow> jsstring jsobject" where
  "countSuites hand = countAll (suitArray hand)"

definition countRanks :: "jsstring list \<Rightarrow> jsstring jsobject" where
  "countRanks hand = countAll (rankArray hand)"

text \<open>
  \<^verbatim>\<open>!!Object.keys(countSuites).find(key => countSuites[key] === 5)\<close>: \<^verbatim>\<open>find\<close> gives the
  first such key or \<^verbatim>\<open>undefined\<close>, and \<^verbatim>\<open>!!\<close> of a string is false exactly for the
  empty string.
\<close>

definition isFlush :: "jsstring list \<Rightarrow> bool" where
  "isFlush hand =
     (case find (\<lambda>key. map_of (countSuites hand) key = Some 5) (Object_keys (countSuites hand))
      of None \<Rightarrow> False | Some key \<Rightarrow> key \<noteq> [])"

text \<open>The three strings compared in \<open>isStraight\<close>.\<close>

definition straightRef :: "jsstring list \<Rightarrow> jsstring" where
  "straightRef hand =
     (let index = indexOf ranks (at0 (rankArray hand))
      in concat (js_slice ranks index (index + 5)))"

definition section_of :: "jsstring list \<Rightarrow> jsstring" where
  "section_of hand = concat (rankArray hand)"

definition isStraight :: "jsstring list \<Rightarrow> bool" where
  "isStraight hand =
     (let ref = straightRef hand; section = section_of hand
      in section = str ''AKQJ10'' \<or> section = str ''2345A'' \<or> section = ref)"

definition isFourOfKind :: "jsstring list \<Rightarrow> nat" where
  "isFourOfKind hand =
     length (filter (\<lambda>key. map_of (countRanks hand) key = Some 4) (Object_keys (countRanks hand)))"

definition isThreeOfKind :: "jsstring list \<Rightarrow> nat" where
  "isThreeOfKind hand =
     length (filter (\<lambda>key. map_of (countRanks hand) key = Some 3) (Object_keys (countRanks hand)))"

definition isPairs :: "jsstring list \<Rightarrow> nat" where
  "isPairs hand =
     length (filter (\<lambda>key. map_of (countRanks hand) key = Some 2) (Object_keys (countRanks hand)))"

text \<open>A number is truthy in a condition exactly when it is not 0.\<close>

definition getPokerHandRank :: "jsstring list \<Rightarrow> int" where
  "getPokerHandRank hand =
     (if isStraight hand \<and> isFlush hand then PokerRank StraightFlush
      else if isFourOfKind hand \<noteq> 0 then PokerRank FourOfKind
      else if isThreeOfKind hand \<noteq> 0 \<and> isPairs hand = 1 then PokerRank FullHouse
      else if isFlush hand then PokerRank Flush
      else if isStraight hand then PokerRank Straight
      else if isThreeOfKind hand \<noteq> 0 then PokerRank ThreeOfKind
      else if isPairs hand = 2 then PokerRank TwoPairs
      else if isPairs hand = 1 then PokerRank OnePair
      else PokerRank HighCard)"

text \<open>The suit glyphs of the examples in the source's documentation comment.\<close>

definition spades :: jsstring where "spades = [0x2660]"
definition clubs :: jsstring where "clubs = [0x2663]"
definition hearts :: jsstring where "hearts = [0x2665]"
definition diamonds :: jsstring where "diamonds = [0x2666]"

text \<open>A card token: an ASCII rank followed by a suit glyph.\<close>

definition token :: "string \<Rightarrow> jsstring \<Rightarrow> jsstring" where
  "token r s = str r @ s"

subsection \<open>Notions used to state the properties\<close>

text \<open>
  The position of a card's rank substring in the rank table (\<open>-1\<close> when it is not
  there), the hand's positions sorted ascending, and the ranks at these positions: the
  hand "sorted by canonical rank order", independently of \<open>sortedHand\<close>.
\<close>

definition rankIndex :: "jsstring \<Rightarrow> int" where
  "rankIndex c = indexOf ranks (Some (getRank c))"

definition sortedIndices :: "jsstring list \<Rightarrow> int list" where
  "sortedIndices hand = sort (map rankIndex hand)"

definition sortedRanks :: "jsstring list \<Rightarrow> jsstring list" where
  "sortedRanks hand = map (\<lambda>i. ranks ! nat i) (sortedIndices hand)"

text \<open>Consecutive integers in ascending order.\<close>

fun consecutive :: "int list \<Rightarrow> bool" where
  "consecutive (x # y # ys) = (y = x + 1 \<and> consecutive (y # ys))"
| "consecutive _ = True"

text \<open>
  The straight test in the specification's words: the sorted rank indices are
  consecutive, or the sorted rank sequence is that of the wheel (ace, 2, 3, 4, 5; in table
  order the ace comes last).
\<close>

definition straightSpec :: "jsstring list \<Rightarrow> bool" where
  "straightSpec hand =
     (consecutive (sortedIndices hand) \<or>
      sortedRanks hand = map str [''2'', ''3'', ''4'', ''5'', ''A''])"

text \<open>
  The sorted rank array written as positions in the rank table, and the positions of the
  window \<^verbatim>\<open>ranks.slice(index, index + 5)\<close>; both are used in the proofs only.
\<close>

definition rankIndices :: "jsstring list \<Rightarrow> nat list" where
  "rankIndices hand =
     concat (map (\<lambda>i. replicate (count (mset (map getRank hand)) (ranks ! i)) i)
       [0..<length ranks])"

definition refIndices :: "jsstring list \<Rightarrow> nat list" where
  "refIndices hand =
     (case rankIndices hand of [] \<Rightarrow> [] | i # _ \<Rightarrow> [i..<min 13 (i + 5)])"

text \<open>
  \<open>isStraight\<close> with the disjunct \<^verbatim>\<open>section === 'AKQJ10'\<close> removed, to be compared with
  the original.
\<close>

definition isStraight_noHigh :: "jsstring list \<Rightarrow> bool" where
  "isStraight_noHigh hand =
     (let ref = straightRef hand; section = section_of hand
      in section = str ''2345A'' \<or> section = ref)"

text \<open>
  The precedence list of the specification: each category with its predicate, highest
  precedence first. \<open>fours\<close>, \<open>threes\<close> and \<open>pairs\<close> of the specification are the numbers
  that \<open>isFourOfKind\<close>, \<open>isThreeOfKind\<close> and \<open>isPairs\<close> return.
\<close>

definition precedence :: "jsstring list \<Rightarrow> (bool \<times> RankName) list" where
  "precedence hand =
     [(isStraight hand \<and> isFlush hand, StraightFlush),
      (isFourOfKind hand = 1, FourOfKind),
      (isThreeOfKind hand = 1 \<and> isPairs hand = 1, FullHouse),
      (isFlush hand, Flush),
      (isStraight hand, Straight),
      (isThreeOfKind hand = 1, ThreeOfKind),
      (isPairs hand = 2, TwoPairs),
      (isPairs hand = 1, OnePair),
      (True, HighCard)]"

text \<open>
  Modelled from the spec: the source has no table of suits (it never checks a suit); the
  specification's data model has the four suit symbols, here the glyphs of the examples.
\<close>

definition suits :: "jsstring list" where
  "suits = [spades, hearts, diamonds, clubs]"

text \<open>
  The parsing stage of \<open>getPokerHandRank\<close>: from the tokens to the rank and suit arrays.
  The source contains no \<^verbatim>\<open>throw\<close>, and \<^verbatim>\<open>slice\<close>, \<^verbatim>\<open>push\<close> and \<open>===\<close> are defined on
  every string, so on an array of strings the stage always returns normally: the outcome
  has no error branch. The two error names are the specification's.
\<close>

datatype error = MalformedCardError | InvalidHandError

definition parseHand :: "jsstring list \<Rightarrow> error + (jsstring list \<times> jsstring list)" where
  "parseHand hand = Inr (rankArray hand, suitArray hand)"

section \<open>Properties of the building blocks\<close>

subsection \<open>Substrings, sorting and counting\<close>

lemma getRank_butlast: "getRank c = butlast c"
  by (simp add: getRank_def js_slice_def butlast_conv_take nat_diff_distrib' max_def)

lemma getSuit_last: "getSuit c = (if c = [] then [] else [last c])"
proof (cases c rule: rev_cases)
  case Nil
  then show ?thesis by (simp add: getSuit_def sliceFrom_def js_slice_def)
next
  case (snoc ys y)
  then show ?thesis by (simp add: getSuit_def sliceFrom_def js_slice_def)
qed

lemma fold_push_filter:
  "fold (\<lambda>c sH. if P c then sH @ [c] else sH) hand sH = sH @ filter P hand"
  by (induction hand arbitrary: sH) auto

lemma fold_append_concat:
  "fold (\<lambda>r sH. sH @ f r) rs acc = acc @ concat (map f rs)"
  by (induction rs arbitrary: acc) auto

lemma sortedHand_concat:
  "sortedHand hand = concat (map (\<lambda>r. filter (\<lambda>c. r = getRank c) hand) ranks)"
  by (simp add: sortedHand_def fold_push_filter fold_append_concat)

lemma map_getRank_filter:
  "map getRank (filter (\<lambda>c. r = getRank c) hand) =
     replicate (count (mset (map getRank hand)) r) r"
  by (induction hand) auto

lemma rankArray_replicate:
  "rankArray hand = concat (map (\<lambda>r. replicate (count (mset (map getRank hand)) r) r) ranks)"
  by (simp add: rankArray_def sortedHand_concat map_concat comp_def map_getRank_filter)

lemma map_of_countStep:
  "map_of (countStep x al) k =
     (if k = x then Some ((case map_of al x of None \<Rightarrow> 0 | Some n \<Rightarrow> n) + 1) else map_of al k)"
  by (simp add: countStep_def update_conv')

lemma keys_countStep: "fst ` set (countStep x al) = insert x (fst ` set al)"
  by (simp add: countStep_def dom_update)

lemma distinct_countStep: "distinct (map fst al) \<Longrightarrow> distinct (map fst (countStep x al))"
  by (simp add: countStep_def distinct_update)

lemma sum_countStep: "sum_list (map snd (countStep x al)) = Suc (sum_list (map snd al))"
  unfolding countStep_def
  by (induction al) (auto split: option.splits)

lemma fold_countStep_map_of:
  "map_of (fold countStep xs al) k =
     (case map_of al k of
        None \<Rightarrow> if k \<in> set xs then Some (count_list xs k) else None
      | Some n \<Rightarrow> Some (n + count_list xs k))"
  by (induction xs arbitrary: al) (auto simp: map_of_countStep split: option.splits)

lemma fold_countStep_distinct:
  "distinct (map fst al) \<Longrightarrow> distinct (map fst (fold countStep xs al))"
  by (induction xs arbitrary: al) (auto simp: distinct_countStep)

lemma fold_countStep_keys:
  "fst ` set (fold countStep xs al) = fst ` set al \<union> set xs"
  by (induction xs arbitrary: al) (auto simp: keys_countStep)

lemma fold_countStep_sum:
  "sum_list (map snd (fold countStep xs al)) = sum_list (map snd al) + length xs"
  by (induction xs arbitrary: al) (auto simp: sum_countStep)

lemma map_of_countAll:
  "map_of (countAll xs) k = (if k \<in> set xs then Some (count_list xs k) else None)"
  by (simp add: countAll_def fold_countStep_map_of)

lemma distinct_countAll: "distinct (Object_keys (countAll xs))"
  by (simp add: countAll_def Object_keys_def fold_countStep_distinct)

lemma set_keys_countAll: "set (Object_keys (countAll xs)) = set xs"
  by (simp add: countAll_def Object_keys_def fold_countStep_keys)

lemma sum_countAll: "sum_list (map snd (countAll xs)) = length xs"
  by (simp add: countAll_def fold_countStep_sum)

lemma keys_with_count:
  assumes "distinct (map fst al)"
  shows "filter (\<lambda>k. map_of al k = Some n) (map fst al) = map fst (filter (\<lambda>p. snd p = n) al)"
proof -
  have "\<And>p. p \<in> set al \<Longrightarrow> (map_of al (fst p) = Some n) = (snd p = n)"
    using assms by (metis map_of_eq_Some_iff option.inject prod.collapse)
  then show ?thesis by (simp add: filter_map comp_def cong: filter_cong)
qed

lemma weighted_counts:
  "4 * length (filter (\<lambda>p. snd p = 4) al) + 3 * length (filter (\<lambda>p. snd p = 3) al)
     + 2 * length (filter (\<lambda>p. snd p = 2) al) \<le> sum_list (map snd (al :: ('k \<times> nat) list))"
  by (induction al) auto

subsection \<open>The rank table and unique decoding\<close>

lemma ranks_unfold:
  "ranks = [[0x32], [0x33], [0x34], [0x35], [0x36], [0x37], [0x38], [0x39], [0x31, 0x30],
            [0x4A], [0x51], [0x4B], [0x41]]"
  by (simp add: ranks_def str_def)

lemma length_ranks: "length ranks = 13"
  by (simp add: ranks_def)

lemma distinct_hd_ranks: "distinct (map hd ranks)"
  by (simp add: ranks_unfold)

lemma distinct_ranks: "distinct ranks"
  using distinct_hd_ranks by (simp add: distinct_map)

lemma Nil_notin_ranks: "[] \<notin> set ranks"
  by (simp add: ranks_unfold)

lemma ranks_same_hd:
  assumes "r \<in> set ranks" "r' \<in> set ranks" "hd r = hd r'"
  shows "r = r'"
  using assms distinct_hd_ranks by (meson distinct_map inj_onD)

lemma concat_ranks_inj:
  "set rs \<subseteq> set ranks \<Longrightarrow> set rs' \<subseteq> set ranks \<Longrightarrow> concat rs = concat rs' \<Longrightarrow> rs = rs'"
proof (induction rs arbitrary: rs')
  case Nil
  then have "\<forall>r \<in> set rs'. r = []" by simp
  with Nil.prems(2) Nil_notin_ranks show ?case
    by (cases rs') auto
next
  case (Cons r rs)
  from Cons.prems(1) Nil_notin_ranks have r: "r \<in> set ranks" "r \<noteq> []" by auto
  show ?case
  proof (cases rs')
    case Nil
    with Cons.prems(3) r show ?thesis by simp
  next
    case (Cons r' rs'')
    with Cons.prems(2) Nil_notin_ranks have r': "r' \<in> set ranks" "r' \<noteq> []" by auto
    from Cons.prems(3) Cons have eq: "r @ concat rs = r' @ concat rs''" by simp
    then have "hd (r @ concat rs) = hd (r' @ concat rs'')" by simp
    with r r' have "hd r = hd r'" by simp
    with r r' have "r = r'" by (auto intro: ranks_same_hd)
    with eq have "concat rs = concat rs''" by simp
    moreover from Cons.prems(1) have "set rs \<subseteq> set ranks" by simp
    moreover from Cons.prems(2) Cons have "set rs'' \<subseteq> set ranks" by simp
    ultimately have "rs = rs''" using Cons.IH[of rs''] by simp
    with \<open>r = r'\<close> Cons show ?thesis by simp
  qed
qed

lemma decode_unique:
  assumes "set is \<subseteq> {..<13}" "set js \<subseteq> {..<13}"
    and "concat (map (nth ranks) is) = concat (map (nth ranks) js)"
  shows "is = js"
proof -
  have "set (map (nth ranks) is) \<subseteq> set ranks" "set (map (nth ranks) js) \<subseteq> set ranks"
    using assms(1,2) by (auto simp: length_ranks subset_iff)
  then have "map (nth ranks) is = map (nth ranks) js"
    using assms(3) by (rule concat_ranks_inj)
  moreover have "inj_on (nth ranks) (set is \<union> set js)"
    using assms(1,2) distinct_ranks
    by (auto simp: inj_on_def nth_eq_iff_index_eq length_ranks subset_iff)
  ultimately show ?thesis using map_inj_on[of "nth ranks" "is" js] by simp
qed

lemma rankArray_indices: "rankArray hand = map (nth ranks) (rankIndices hand)"
proof -
  have "rankArray hand =
      concat (map (\<lambda>r. replicate (count (mset (map getRank hand)) r) r) (map (nth ranks) [0..<length ranks]))"
    by (simp only: map_nth rankArray_replicate)
  then show ?thesis
    by (simp add: rankIndices_def map_concat comp_def)
qed

lemma sorted_concat_replicate:
  "sorted (concat (map (\<lambda>i. replicate (f i) i) [a..<b]))"
  by (induction b) (auto simp: sorted_append)

lemma set_concat_replicate:
  "set (concat (map (\<lambda>i. replicate (f i) i) [a..<b])) \<subseteq> {a..<b}"
  by auto

lemma sorted_rankIndices: "sorted (rankIndices hand)"
  by (simp add: rankIndices_def sorted_concat_replicate)

lemma set_rankIndices: "set (rankIndices hand) \<subseteq> {..<13}"
  using set_concat_replicate[of _ 0 "length ranks"]
  by (auto simp: rankIndices_def length_ranks)

lemma length_rankIndices: "length (rankIndices hand) = length (rankArray hand)"
  by (simp add: rankArray_indices)

subsection \<open>The straight test on rank positions\<close>

lemma indexOfFrom_notin: "x \<notin> set xs \<Longrightarrow> indexOfFrom k xs x = -1"
  by (induction xs arbitrary: k) auto

lemma indexOfFrom_nth:
  "distinct xs \<Longrightarrow> i < length xs \<Longrightarrow> indexOfFrom k xs (xs ! i) = k + int i"
proof (induction xs arbitrary: k i)
  case Nil
  then show ?case by simp
next
  case (Cons y ys)
  show ?case
  proof (cases i)
    case 0
    then show ?thesis by simp
  next
    case (Suc j)
    with Cons.prems have "ys ! j \<in> set ys" "y \<notin> set ys" by auto
    then have "y \<noteq> ys ! j" by auto
    with Suc Cons.prems Cons.IH[of j "k + 1"] show ?thesis by simp
  qed
qed

lemma indexOf_ranks_nth: "i < 13 \<Longrightarrow> indexOf ranks (Some (ranks ! i)) = int i"
  by (simp add: indexOf_def indexOfFrom_nth distinct_ranks length_ranks)

lemma take_drop_nth: "take n (drop i xs) = map (nth xs) [i..<min (length xs) (i + n)]"
  by (auto simp: list_eq_iff_nth_eq)

lemma js_slice_window: "js_slice xs (int i) (int i + 5) = take 5 (drop i xs)"
  by (auto simp: js_slice_def Let_def min_def nat_add_distrib)

lemma section_of_indices: "section_of hand = concat (map (nth ranks) (rankIndices hand))"
  by (simp add: section_of_def rankArray_indices)

lemma straightRef_indices: "straightRef hand = concat (map (nth ranks) (refIndices hand))"
proof (cases "rankIndices hand")
  case Nil
  then have "rankArray hand = []" by (simp add: rankArray_indices)
  then have "straightRef hand = []"
    by (simp add: straightRef_def at0_def indexOf_def js_slice_def length_ranks)
  with Nil show ?thesis by (simp add: refIndices_def)
next
  case (Cons i ks)
  with set_rankIndices[of hand] have i: "i < 13" by auto
  from Cons have "at0 (rankArray hand) = Some (ranks ! i)"
    by (simp add: rankArray_indices at0_def)
  with i have "straightRef hand = concat (take 5 (drop i ranks))"
    by (simp add: straightRef_def indexOf_ranks_nth js_slice_window)
  with Cons show ?thesis
    by (simp add: refIndices_def take_drop_nth length_ranks)
qed

lemma wheel_string: "str ''2345A'' = concat (map (nth ranks) [0, 1, 2, 3, 12])"
  by (simp add: ranks_unfold str_def)

lemma high_string: "str ''AKQJ10'' = concat (map (nth ranks) [12, 11, 10, 9, 8])"
  by (simp add: ranks_unfold str_def)

lemma set_refIndices: "set (refIndices hand) \<subseteq> {..<13}"
  by (auto simp: refIndices_def split: list.splits)

lemma section_eq_iff:
  assumes "set js \<subseteq> {..<13}"
  shows "section_of hand = concat (map (nth ranks) js) \<longleftrightarrow> rankIndices hand = js"
  using decode_unique[OF set_rankIndices assms] by (auto simp: section_of_indices)

lemma section_not_high: "section_of hand \<noteq> str ''AKQJ10''"
proof
  assume "section_of hand = str ''AKQJ10''"
  then have "section_of hand = concat (map (nth ranks) [12, 11, 10, 9, 8])"
    by (simp only: high_string)
  then have "rankIndices hand = [12, 11, 10, 9, 8]"
    by (subst (asm) section_eq_iff) simp_all
  with sorted_rankIndices[of hand] show False by simp
qed

lemma isStraight_indices:
  "isStraight hand \<longleftrightarrow>
     rankIndices hand = [0, 1, 2, 3, 12] \<or> rankIndices hand = refIndices hand"
proof -
  have "section_of hand = str ''2345A'' \<longleftrightarrow> rankIndices hand = [0, 1, 2, 3, 12]"
    unfolding wheel_string by (rule section_eq_iff) simp
  moreover have "section_of hand = straightRef hand \<longleftrightarrow> rankIndices hand = refIndices hand"
    by (simp only: straightRef_indices section_eq_iff[OF set_refIndices])
  ultimately show ?thesis
    by (simp add: isStraight_def Let_def section_not_high)
qed

lemma five_window:
  assumes "length ks = 5" "set ks \<subseteq> {..<13}"
  shows "ks = (case ks of [] \<Rightarrow> [] | i # _ \<Rightarrow> [i..<min 13 (i + 5)]) \<longleftrightarrow>
         (\<exists>i. ks = [i, i + 1, i + 2, i + 3, i + 4])"
proof
  assume L: "ks = (case ks of [] \<Rightarrow> [] | i # _ \<Rightarrow> [i..<min 13 (i + 5)])"
  from assms(1) obtain i js where ks: "ks = i # js" by (cases "ks") auto
  with L have eq: "ks = [i..<min 13 (i + 5)]" by simp
  with assms(1) have "min 13 (i + 5) - i = 5" by (metis length_upt)
  then have "min 13 (i + 5) = i + 5" by linarith
  with eq have "ks = [i..<i + 5]" by simp
  also have "[i..<i + 5] = [i, i + 1, i + 2, i + 3, i + 4]"
    by (simp add: upt_rec numeral_eq_Suc)
  finally show "\<exists>i. ks = [i, i + 1, i + 2, i + 3, i + 4]" by blast
next
  assume "\<exists>i. ks = [i, i + 1, i + 2, i + 3, i + 4]"
  then obtain i where ks: "ks = [i, i + 1, i + 2, i + 3, i + 4]" by blast
  with assms(2) have "i + 4 < 13" by simp
  then have "min 13 (i + 5) = i + 5" by simp
  moreover have "[i..<i + 5] = [i, i + 1, i + 2, i + 3, i + 4]"
    by (simp add: upt_rec numeral_eq_Suc)
  ultimately show "ks = (case ks of [] \<Rightarrow> [] | i # _ \<Rightarrow> [i..<min 13 (i + 5)])"
    using ks by simp
qed

subsection \<open>The source's sort against a sort of the rank positions\<close>

lemma mset_concat_filter:
  "distinct rs \<Longrightarrow>
     mset (concat (map (\<lambda>r. filter (\<lambda>c. r = f c) xs) rs)) =
     filter_mset (\<lambda>c. f c \<in> set rs) (mset xs)"
proof (induction rs)
  case Nil
  then show ?case by simp
next
  case (Cons r rs)
  then have "r \<notin> set rs" by simp
  then have "filter_mset (\<lambda>c. r = f c) (mset xs) + filter_mset (\<lambda>c. f c \<in> set rs) (mset xs) =
        filter_mset (\<lambda>c. f c \<in> set (r # rs)) (mset xs)"
    by (auto simp: multiset_eq_iff)
  with Cons show ?case by simp
qed

lemma mset_sortedHand:
  "mset (sortedHand hand) = filter_mset (\<lambda>c. getRank c \<in> set ranks) (mset hand)"
  by (simp add: sortedHand_concat mset_concat_filter distinct_ranks)

lemma set_sortedHand: "set (sortedHand hand) = {c \<in> set hand. getRank c \<in> set ranks}"
  using arg_cong[where f = set_mset, OF mset_sortedHand] by simp

lemma mset_sortedHand_valid:
  "\<forall>c \<in> set hand. getRank c \<in> set ranks \<Longrightarrow> mset (sortedHand hand) = mset hand"
  by (simp add: mset_sortedHand filter_mset_eq_conv)

lemma length_sortedHand_le: "length (sortedHand hand) \<le> length hand"
  using size_filter_mset_lesseq[of "\<lambda>c. getRank c \<in> set ranks" "mset hand"]
  by (simp flip: mset_sortedHand)

lemma length_sortedHand_valid:
  "\<forall>c \<in> set hand. getRank c \<in> set ranks \<Longrightarrow> length (sortedHand hand) = length hand"
  using arg_cong[where f = size, OF mset_sortedHand_valid] by simp

lemma rankIndex_sortedHand: "map rankIndex (sortedHand hand) = map int (rankIndices hand)"
proof -
  have "map rankIndex (sortedHand hand) = map (\<lambda>r. indexOf ranks (Some r)) (rankArray hand)"
    by (simp add: rankArray_def rankIndex_def comp_def)
  also have "\<dots> = map (\<lambda>i. indexOf ranks (Some (ranks ! i))) (rankIndices hand)"
    by (simp add: rankArray_indices comp_def)
  also have "\<dots> = map int (rankIndices hand)"
    using set_rankIndices[of hand] by (auto simp: indexOf_ranks_nth)
  finally show ?thesis .
qed

lemma sortedIndices_valid:
  assumes "\<forall>c \<in> set hand. getRank c \<in> set ranks"
  shows "sortedIndices hand = map int (rankIndices hand)"
proof -
  have "mset (map int (rankIndices hand)) = mset (map rankIndex hand)"
    using mset_sortedHand_valid[OF assms]
    by (metis rankIndex_sortedHand mset_map)
  moreover have "sorted (map int (rankIndices hand))"
    using sorted_rankIndices[of hand] by (simp add: sorted_map sorted_wrt_iff_nth_less)
  ultimately show ?thesis
    unfolding sortedIndices_def by (rule properties_for_sort)
qed

lemma consecutive5:
  "length ks = 5 \<Longrightarrow>
     consecutive (map int ks) \<longleftrightarrow> (\<exists>i. ks = [i, i + 1, i + 2, i + 3, i + 4])"
proof -
  assume "length ks = 5"
  then obtain a b c d e where "ks = [a, b, c, d, e]"
    by (auto simp: length_Suc_conv numeral_eq_Suc)
  then show ?thesis by auto
qed

lemma nth_ranks_inj:
  assumes "set ks \<subseteq> {..<13}" "set js \<subseteq> {..<13}"
  shows "map (nth ranks) ks = map (nth ranks) js \<longleftrightarrow> ks = js"
proof -
  have "inj_on (nth ranks) (set ks \<union> set js)"
    using assms distinct_ranks
    by (auto simp: inj_on_def nth_eq_iff_index_eq length_ranks subset_iff)
  then show ?thesis using map_inj_on[of "nth ranks" ks js] by auto
qed

lemma wheel_ranks: "map str [''2'', ''3'', ''4'', ''5'', ''A''] = map (nth ranks) [0, 1, 2, 3, 12]"
  by (simp add: ranks_def)

lemma isStraight_spec:
  assumes "length hand = 5" "\<forall>c \<in> set hand. getRank c \<in> set ranks"
  shows "isStraight hand \<longleftrightarrow> straightSpec hand"
proof -
  let ?I = "rankIndices hand"
  have len: "length ?I = 5"
    using assms by (simp add: length_rankIndices rankArray_def length_sortedHand_valid)
  have "sortedRanks hand = map (nth ranks) ?I"
    by (simp add: sortedRanks_def sortedIndices_valid[OF assms(2)] comp_def)
  then have wheel: "sortedRanks hand = map str [''2'', ''3'', ''4'', ''5'', ''A''] \<longleftrightarrow>
      ?I = [0, 1, 2, 3, 12]"
    unfolding wheel_ranks using nth_ranks_inj[OF set_rankIndices, of "[0, 1, 2, 3, 12]" hand]
    by simp
  have "?I = refIndices hand \<longleftrightarrow> (\<exists>i. ?I = [i, i + 1, i + 2, i + 3, i + 4])"
    unfolding refIndices_def using len set_rankIndices by (rule five_window)
  also have "\<dots> \<longleftrightarrow> consecutive (sortedIndices hand)"
    by (simp only: sortedIndices_valid[OF assms(2)] consecutive5[OF len])
  finally show ?thesis
    using wheel by (auto simp: isStraight_indices straightSpec_def)
qed

subsection \<open>The rank array of a hand with given ranks\<close>

lemma rankArray_of_mset:
  "mset (map getRank hand) = mset rs \<Longrightarrow>
     rankArray hand = concat (map (\<lambda>r. replicate (count_list rs r) r) ranks)"
  by (simp add: rankArray_replicate count_mset)

lemma rankArray_high:
  assumes "mset (map getRank hand) = mset (map str [''10'', ''J'', ''Q'', ''K'', ''A''])"
  shows "rankArray hand = map str [''10'', ''J'', ''Q'', ''K'', ''A'']"
  unfolding rankArray_of_mset[OF assms] by (simp add: ranks_def str_def)

lemma rankArray_wheel:
  assumes "mset (map getRank hand) = mset (map str [''A'', ''2'', ''3'', ''4'', ''5''])"
  shows "rankArray hand = map str [''2'', ''3'', ''4'', ''5'', ''A'']"
  unfolding rankArray_of_mset[OF assms] by (simp add: ranks_def str_def)

lemma high_straight_by_window:
  assumes "mset (map getRank hand) = mset (map str [''10'', ''J'', ''Q'', ''K'', ''A''])"
  shows "section_of hand = straightRef hand"
  by (simp add: section_of_def straightRef_def rankArray_high[OF assms] at0_def indexOf_def
      ranks_def str_def js_slice_def)

subsection \<open>The flush test and the counts\<close>

lemma suit_nonempty: "c \<in> set (sortedHand hand) \<Longrightarrow> getSuit c \<noteq> []"
proof -
  assume "c \<in> set (sortedHand hand)"
  then have "butlast c \<in> set ranks" by (simp add: set_sortedHand getRank_butlast)
  with Nil_notin_ranks have "c \<noteq> []" by auto
  then show ?thesis by (simp add: getSuit_last)
qed

lemma Nil_notin_suitArray: "[] \<notin> set (suitArray hand)"
proof
  assume "[] \<in> set (suitArray hand)"
  then obtain c where "c \<in> set (sortedHand hand)" "getSuit c = []"
    by (auto simp: suitArray_def)
  then show False using suit_nonempty by blast
qed

lemma isFlush_count:
  "isFlush hand \<longleftrightarrow> (\<exists>s \<in> set (suitArray hand). count_list (suitArray hand) s = 5)"
proof (cases "find (\<lambda>key. map_of (countSuites hand) key = Some 5) (Object_keys (countSuites hand))")
  case None
  then have "\<forall>s \<in> set (suitArray hand). count_list (suitArray hand) s \<noteq> 5"
    by (simp add: find_None_iff countSuites_def set_keys_countAll map_of_countAll)
  with None show ?thesis by (simp add: isFlush_def)
next
  case (Some key)
  then have "map_of (countAll (suitArray hand)) key = Some 5"
    by (auto simp: find_Some_iff countSuites_def)
  then have "key \<in> set (suitArray hand)" "count_list (suitArray hand) key = 5"
    by (simp_all add: map_of_countAll split: if_splits)
  moreover from this Nil_notin_suitArray[of hand] have "key \<noteq> []" by auto
  ultimately show ?thesis using Some by (auto simp: isFlush_def)
qed

lemma count_list_all: "count_list xs s = length xs \<longleftrightarrow> (\<forall>x \<in> set xs. x = s)"
proof (induction xs)
  case Nil
  then show ?case by simp
next
  case (Cons x xs)
  have "count_list xs s \<le> length xs" by (rule count_le_length)
  with Cons show ?case by auto
qed

lemma fold_countStep_same:
  "fold countStep (replicate n s) [(s, m)] = [(s, m + n)]"
  by (induction n arbitrary: m) (simp_all add: countStep_def)

lemma countAll_replicate: "countAll (replicate (Suc n) s) = [(s, Suc n)]"
  using fold_countStep_same[of n s 1] by (simp add: countAll_def countStep_def)

lemma isFlush_same_suit:
  assumes "length hand = 5" "\<forall>c \<in> set hand. getRank c \<in> set ranks"
  shows "isFlush hand \<longleftrightarrow> (\<exists>s. \<forall>c \<in> set hand. getSuit c = s)"
proof -
  have len: "length (suitArray hand) = 5"
    using assms by (simp add: suitArray_def length_sortedHand_valid)
  have set: "set (suitArray hand) = getSuit ` set hand"
    using assms(2) by (auto simp: suitArray_def set_sortedHand)
  have "isFlush hand \<longleftrightarrow>
      (\<exists>s \<in> set (suitArray hand). count_list (suitArray hand) s = length (suitArray hand))"
    by (simp add: isFlush_count len)
  also have "\<dots> \<longleftrightarrow> (\<exists>s \<in> set (suitArray hand). \<forall>x \<in> set (suitArray hand). x = s)"
    by (simp only: count_list_all)
  also have "\<dots> \<longleftrightarrow> (\<exists>s. \<forall>x \<in> set (suitArray hand). x = s)"
    using len by (cases "suitArray hand") auto
  finally show ?thesis by (simp add: set)
qed

lemma isFlush_single_key:
  assumes "length hand = 5" "\<forall>c \<in> set hand. getRank c \<in> set ranks"
  shows "isFlush hand \<longleftrightarrow> (\<exists>s. countSuites hand = [(s, 5)])"
proof
  assume "isFlush hand"
  then obtain s where "count_list (suitArray hand) s = 5" by (auto simp: isFlush_count)
  moreover have len: "length (suitArray hand) = 5"
    using assms by (simp add: suitArray_def length_sortedHand_valid)
  ultimately have "\<forall>x \<in> set (suitArray hand). x = s" by (simp flip: count_list_all)
  then have "suitArray hand = replicate (length (suitArray hand)) s"
    by (simp add: replicate_length_same)
  with len have "suitArray hand = replicate (Suc 4) s" by simp
  then have "countSuites hand = [(s, 5)]"
    unfolding countSuites_def by (simp only: countAll_replicate) simp
  then show "\<exists>s. countSuites hand = [(s, 5)]" by blast
next
  assume "\<exists>s. countSuites hand = [(s, 5)]"
  then obtain s where s: "countSuites hand = [(s, 5)]" by blast
  then have "map_of (countAll (suitArray hand)) s = Some 5" by (simp add: countSuites_def)
  then have "s \<in> set (suitArray hand) \<and> count_list (suitArray hand) s = 5"
    by (simp add: map_of_countAll split: if_splits)
  then show "isFlush hand" by (auto simp: isFlush_count)
qed

subsection \<open>Reordering the hand\<close>

lemma rankArray_perm: "mset hand' = mset hand \<Longrightarrow> rankArray hand' = rankArray hand"
  by (simp add: rankArray_replicate)

lemma suitArray_perm:
  "mset hand' = mset hand \<Longrightarrow> mset (suitArray hand') = mset (suitArray hand)"
  by (simp add: suitArray_def mset_sortedHand)

lemma isFlush_perm:
  assumes "mset hand' = mset hand"
  shows "isFlush hand' = isFlush hand"
proof -
  have "isFlush h \<longleftrightarrow> (\<exists>s \<in># mset (suitArray h). count (mset (suitArray h)) s = 5)" for h
    by (simp add: isFlush_count count_mset)
  then show ?thesis by (simp only: suitArray_perm[OF assms])
qed

lemma isStraight_perm:
  assumes "mset hand' = mset hand"
  shows "isStraight hand' = isStraight hand"
  by (simp add: isStraight_def straightRef_def section_of_def rankArray_perm[OF assms])

lemma countRanks_perm:
  assumes "mset hand' = mset hand"
  shows "countRanks hand' = countRanks hand"
  by (simp add: countRanks_def rankArray_perm[OF assms])

lemma getPokerHandRank_perm:
  assumes "mset hand' = mset hand"
  shows "getPokerHandRank hand' = getPokerHandRank hand"
  by (simp add: getPokerHandRank_def isFlush_perm[OF assms] isStraight_perm[OF assms]
      isFourOfKind_def isThreeOfKind_def isPairs_def countRanks_perm[OF assms])

lemma counts_bound:
  "4 * isFourOfKind hand + 3 * isThreeOfKind hand + 2 * isPairs hand \<le> length hand"
proof -
  let ?al = "countRanks hand"
  have d: "distinct (map fst ?al)"
    using distinct_countAll[of "rankArray hand"] by (simp add: countRanks_def Object_keys_def)
  have n: "length (filter (\<lambda>key. map_of ?al key = Some n) (Object_keys ?al)) =
      length (filter (\<lambda>p. snd p = n) ?al)" for n
    unfolding Object_keys_def keys_with_count[OF d] by simp
  have "sum_list (map snd ?al) \<le> length hand"
    using length_sortedHand_le[of hand] by (simp add: countRanks_def sum_countAll rankArray_def)
  with weighted_counts[of ?al] show ?thesis
    by (simp add: isFourOfKind_def isThreeOfKind_def isPairs_def n)
qed

subsection \<open>Precedence of the categories\<close>

lemma fours_threes_le1:
  assumes "length hand = 5"
  shows "isFourOfKind hand \<le> 1" "isThreeOfKind hand \<le> 1"
    "isFourOfKind hand \<noteq> 0 \<Longrightarrow> isThreeOfKind hand = 0 \<and> isPairs hand = 0"
    "isThreeOfKind hand \<noteq> 0 \<Longrightarrow> isPairs hand \<le> 1"
  using counts_bound[of hand] assms by auto

lemma getPokerHandRank_first_match:
  assumes "length hand = 5"
  shows "map_option (PokerRank \<circ> snd) (find fst (precedence hand)) = Some (getPokerHandRank hand)"
proof -
  have "isFourOfKind hand \<noteq> 0 \<longleftrightarrow> isFourOfKind hand = 1"
    using fours_threes_le1(1)[OF assms] by auto
  moreover have "isThreeOfKind hand \<noteq> 0 \<longleftrightarrow> isThreeOfKind hand = 1"
    using fours_threes_le1(2)[OF assms] by auto
  ultimately show ?thesis
    by (auto simp: precedence_def getPokerHandRank_def)
qed

lemma precedence_values:
  "map (PokerRank \<circ> snd) (precedence hand) = [8, 7, 6, 5, 4, 3, 2, 1, 0]"
  by (simp add: precedence_def)

lemma first_match_dominates:
  assumes "find fst ps = Some p" "i < length ps" "fst (ps ! i)"
    and "sorted_wrt (>) (map f ps)"
  shows "f (ps ! i) \<le> (f p :: int)"
proof -
  from assms(1) obtain k where k: "k < length ps" "ps ! k = p" "\<forall>j<k. \<not> fst (ps ! j)"
    by (auto simp: find_Some_iff)
  with assms(3) have "k \<le> i" by (meson not_le)
  show ?thesis
  proof (cases "k = i")
    case True
    with k show ?thesis by simp
  next
    case False
    with \<open>k \<le> i\<close> have "k < i" by simp
    with assms(2,4) have "f (ps ! i) < f (ps ! k)"
      by (simp add: sorted_wrt_iff_nth_less)
    with k show ?thesis by simp
  qed
qed

lemma higher_precedence_wins:
  assumes "length hand = 5" "i < j" "j < length (precedence hand)"
    and "fst (precedence hand ! i)"
  shows "PokerRank (snd (precedence hand ! j)) < getPokerHandRank hand"
proof -
  let ?ps = "precedence hand"
  from getPokerHandRank_first_match[OF assms(1)]
  obtain p where p: "find fst ?ps = Some p" "getPokerHandRank hand = PokerRank (snd p)"
    by auto
  have s: "sorted_wrt (>) (map (PokerRank \<circ> snd) ?ps)"
    by (simp only: precedence_values) simp
  from assms(2,3) have i: "i < length ?ps" by simp
  have "(PokerRank \<circ> snd) (?ps ! i) \<le> (PokerRank \<circ> snd) p"
    using p(1) i assms(4) s by (rule first_match_dominates)
  moreover have "(PokerRank \<circ> snd) (?ps ! j) < (PokerRank \<circ> snd) (?ps ! i)"
    using s assms(2,3) by (simp add: sorted_wrt_iff_nth_less)
  ultimately show ?thesis using p(2) by simp
qed

subsection \<open>Key counts, repeated ranks and the wheel\<close>

lemma number_of_keys: "length (Object_keys (countAll xs)) = card (set xs)"
  using distinct_card[OF distinct_countAll[of xs]] by (simp add: set_keys_countAll)

lemma key_counts:
  assumes "length hand = 5"
    and "\<forall>c \<in> set hand. getRank c \<in> set ranks \<and> getSuit c \<in> set suits"
  shows "1 \<le> length (Object_keys (countRanks hand))"
    "length (Object_keys (countRanks hand)) \<le> 5"
    "sum_list (map snd (countRanks hand)) = 5"
    "1 \<le> length (Object_keys (countSuites hand))"
    "length (Object_keys (countSuites hand)) \<le> 4"
    "sum_list (map snd (countSuites hand)) = 5"
proof -
  from assms have len: "length (sortedHand hand) = 5"
    by (simp add: length_sortedHand_valid)
  then have r: "length (rankArray hand) = 5" and s: "length (suitArray hand) = 5"
    by (simp_all add: rankArray_def suitArray_def)
  from r have "set (rankArray hand) \<noteq> {}" by auto
  then show "1 \<le> length (Object_keys (countRanks hand))"
    by (simp add: countRanks_def number_of_keys Suc_le_eq card_gt_0_iff)
  show "length (Object_keys (countRanks hand)) \<le> 5"
    using card_length[of "rankArray hand"] r by (simp add: countRanks_def number_of_keys)
  show "sum_list (map snd (countRanks hand)) = 5"
    by (simp add: countRanks_def sum_countAll r)
  from s have "set (suitArray hand) \<noteq> {}" by auto
  then show "1 \<le> length (Object_keys (countSuites hand))"
    by (simp add: countSuites_def number_of_keys Suc_le_eq card_gt_0_iff)
  have "set (suitArray hand) \<subseteq> set suits"
    using assms(2) by (auto simp: suitArray_def set_sortedHand)
  then have "card (set (suitArray hand)) \<le> card (set suits)"
    by (simp add: card_mono)
  also have "\<dots> \<le> 4"
    using card_length[of suits] by (simp add: suits_def)
  finally show "length (Object_keys (countSuites hand)) \<le> 4"
    by (simp add: countSuites_def number_of_keys)
  show "sum_list (map snd (countSuites hand)) = 5"
    by (simp add: countSuites_def sum_countAll s)
qed

lemma inj_on_nth_ranks: "set ks \<subseteq> {..<13} \<Longrightarrow> inj_on (nth ranks) (set ks)"
  using distinct_ranks
  by (auto simp: inj_on_def nth_eq_iff_index_eq length_ranks subset_iff)

lemma distinct_rankArray: "distinct (rankIndices hand) \<Longrightarrow> distinct (rankArray hand)"
  using inj_on_nth_ranks[OF set_rankIndices, of hand]
  by (simp add: rankArray_indices distinct_map)

lemma isStraight_distinct: "isStraight hand \<Longrightarrow> distinct (rankArray hand)"
proof (rule distinct_rankArray)
  assume "isStraight hand"
  then consider "rankIndices hand = [0, 1, 2, 3, 12]" | "rankIndices hand = refIndices hand"
    by (auto simp: isStraight_indices)
  then show "distinct (rankIndices hand)"
  proof cases
    case 1
    then show ?thesis by simp
  next
    case 2
    have "distinct (refIndices hand)"
      by (simp add: refIndices_def split: list.splits)
    with 2 show ?thesis by simp
  qed
qed

lemma multiple_rank:
  assumes "length (filter (\<lambda>key. map_of (countRanks hand) key = Some n) (Object_keys (countRanks hand))) \<noteq> 0"
  shows "\<exists>r. count_list (rankArray hand) r = n"
proof -
  from assms obtain key where "map_of (countRanks hand) key = Some n"
    by (auto simp: filter_empty_conv)
  then show ?thesis
    by (auto simp: countRanks_def map_of_countAll split: if_splits)
qed

lemma repeated_rank_no_straight:
  assumes "count_list (rankArray hand) r \<ge> 2"
  shows "\<not> isStraight hand"
proof
  assume "isStraight hand"
  then have "distinct (rankArray hand)" by (rule isStraight_distinct)
  then have "count_list (rankArray hand) r \<le> 1"
    by (simp add: distinct_count_atmost_1 flip: count_mset)
  with assms show False by simp
qed

lemma threes_no_straight:
  assumes "isThreeOfKind hand \<noteq> 0"
  shows "\<not> isStraight hand"
proof -
  from assms obtain r where "count_list (rankArray hand) r = 3"
    unfolding isThreeOfKind_def using multiple_rank[of hand 3] by blast
  then have "count_list (rankArray hand) r \<ge> 2" by simp
  then show ?thesis by (rule repeated_rank_no_straight)
qed

lemma straight_no_multiple:
  assumes "isStraight hand" "2 \<le> n"
  shows "length (filter (\<lambda>key. map_of (countRanks hand) key = Some n)
           (Object_keys (countRanks hand))) = 0"
proof (rule ccontr)
  assume "\<not> ?thesis"
  then obtain r where "count_list (rankArray hand) r = n"
    using multiple_rank[of hand n] by blast
  with assms(2) have "count_list (rankArray hand) r \<ge> 2" by simp
  then have "\<not> isStraight hand" by (rule repeated_rank_no_straight)
  with assms(1) show False by simp
qed

lemma full_house:
  assumes "length hand = 5" "isThreeOfKind hand = 1" "isPairs hand = 1"
  shows "getPokerHandRank hand = PokerRank FullHouse"
proof -
  from assms(2) have "\<not> isStraight hand" by (simp add: threes_no_straight)
  moreover from counts_bound[of hand] assms have "isFourOfKind hand = 0" by simp
  ultimately show ?thesis using assms(2,3) by (simp add: getPokerHandRank_def)
qed

lemma three_of_kind_only:
  assumes "length hand = 5" "getPokerHandRank hand = PokerRank ThreeOfKind"
  shows "isThreeOfKind hand = 1 \<and> isPairs hand = 0"
proof -
  from assms(2) have "isThreeOfKind hand \<noteq> 0" "isPairs hand \<noteq> 1"
    by (auto simp: getPokerHandRank_def split: if_splits)
  with counts_bound[of hand] assms(1) show ?thesis by auto
qed

lemma wheel_rank:
  assumes "mset (map getRank hand) = mset (map str [''A'', ''2'', ''3'', ''4'', ''5''])"
  shows "getPokerHandRank hand =
     (if \<exists>s. \<forall>c \<in> set hand. getSuit c = s then PokerRank StraightFlush else PokerRank Straight)"
proof -
  have len: "length hand = 5"
    using arg_cong[where f = size, OF assms] by simp
  have "set (map getRank hand) = set (map str [''A'', ''2'', ''3'', ''4'', ''5''])"
    using arg_cong[where f = set_mset, OF assms] by (simp only: set_mset_mset)
  then have canon: "\<forall>c \<in> set hand. getRank c \<in> set ranks"
    by (auto simp: ranks_def)
  have ra: "rankArray hand = map str [''2'', ''3'', ''4'', ''5'', ''A'']"
    using assms by (rule rankArray_wheel)
  then have "section_of hand = str ''2345A''"
    by (simp add: section_of_def str_def)
  then have st: "isStraight hand" by (simp add: isStraight_def Let_def)
  then have "isFourOfKind hand = 0" "isThreeOfKind hand = 0" "isPairs hand = 0"
    unfolding isFourOfKind_def isThreeOfKind_def isPairs_def
    by (simp_all add: straight_no_multiple[OF st])
  with st show ?thesis
    by (simp add: getPokerHandRank_def isFlush_same_suit[OF len canon])
qed

lemma repeated_rank_valid:
  assumes "\<forall>c \<in> set hand. getRank c \<in> set ranks" "\<not> distinct (map getRank hand)"
  shows "\<not> isStraight hand"
proof
  assume "isStraight hand"
  then have "distinct (rankArray hand)" by (rule isStraight_distinct)
  moreover have "mset (rankArray hand) = mset (map getRank hand)"
    using mset_sortedHand_valid[OF assms(1)] by (simp add: rankArray_def)
  ultimately have "distinct (map getRank hand)"
    using mset_eq_imp_distinct_iff by blast
  with assms(2) show False by simp
qed

section \<open>The claims\<close>

text \<open>
  C1: on a hand of five tokens, \<open>getPokerHandRank\<close> returns the category of the first
  entry of the precedence list (StraightFlush, FourOfKind, FullHouse, Flush, Straight,
  ThreeOfKind, TwoPairs, OnePair, HighCard) whose predicate holds. Hence when the
  predicates of two entries hold, the result is above the category of the later entry; a
  hand that is both a straight and a flush is a StraightFlush.
\<close>

theorem getPokerHandRank_precedence:
  assumes "length hand = 5"
  shows "map_option (PokerRank \<circ> snd) (find fst (precedence hand)) = Some (getPokerHandRank hand) \<and>
    (\<forall>i j. i < j \<and> j < length (precedence hand) \<and> fst (precedence hand ! i) \<and>
        fst (precedence hand ! j) \<longrightarrow>
        PokerRank (snd (precedence hand ! j)) < getPokerHandRank hand) \<and>
    (isStraight hand \<and> isFlush hand \<longrightarrow> getPokerHandRank hand = PokerRank StraightFlush)"
proof (intro conjI allI impI)
  show "map_option (PokerRank \<circ> snd) (find fst (precedence hand)) = Some (getPokerHandRank hand)"
    using assms by (rule getPokerHandRank_first_match)
next
  fix i j
  assume "i < j \<and> j < length (precedence hand) \<and> fst (precedence hand ! i) \<and>
        fst (precedence hand ! j)"
  then show "PokerRank (snd (precedence hand ! j)) < getPokerHandRank hand"
    using higher_precedence_wins[OF assms, of i j] by blast
next
  assume "isStraight hand \<and> isFlush hand"
  then show "getPokerHandRank hand = PokerRank StraightFlush"
    by (simp add: getPokerHandRank_def)
qed

theorem getPokerHandRank_precedence_witness:
  "isStraight [token ''4'' hearts, token ''5'' hearts, token ''6'' hearts, token ''7'' hearts,
               token ''8'' hearts] \<and>
   isFlush [token ''4'' hearts, token ''5'' hearts, token ''6'' hearts, token ''7'' hearts,
            token ''8'' hearts] \<and>
   getPokerHandRank [token ''4'' hearts, token ''5'' hearts, token ''6'' hearts,
                     token ''7'' hearts, token ''8'' hearts] = PokerRank StraightFlush"
proof -
  let ?h = "[token ''4'' hearts, token ''5'' hearts, token ''6'' hearts, token ''7'' hearts,
             token ''8'' hearts]"
  have l: "length ?h = 5" by simp
  have s: "isStraight ?h" by code_simp
  have f: "isFlush ?h" by code_simp
  from getPokerHandRank_precedence[OF l] s f show ?thesis by simp
qed

text \<open>
  C2: for a hand of five tokens with ranks of the table, \<open>isStraight\<close> is true exactly when
  the rank indices, sorted, are five consecutive integers in ascending order, or the
  sorted rank sequence is that of the wheel; it is false for every other hand, so for
  every hand with a repeated rank or a gap.
\<close>

theorem isStraight_iff_spec:
  assumes "length hand = 5" and "\<forall>c \<in> set hand. getRank c \<in> set ranks"
  shows "(isStraight hand \<longleftrightarrow> straightSpec hand) \<and>
         (\<not> distinct (map getRank hand) \<longrightarrow> \<not> isStraight hand)"
  using isStraight_spec[OF assms] repeated_rank_valid[OF assms(2)] by blast

theorem isStraight_iff_spec_witness:
  "isStraight [token ''2'' hearts, token ''4'' diamonds, token ''5'' hearts,
               token ''A'' diamonds, token ''3'' spades] \<and>
   \<not> isStraight [token ''A'' hearts, token ''K'' hearts, token ''Q'' hearts,
               token ''2'' diamonds, token ''3'' spades]"
proof -
  let ?w = "[token ''2'' hearts, token ''4'' diamonds, token ''5'' hearts,
             token ''A'' diamonds, token ''3'' spades]"
  let ?g = "[token ''A'' hearts, token ''K'' hearts, token ''Q'' hearts,
             token ''2'' diamonds, token ''3'' spades]"
  have w: "length ?w = 5" "\<forall>c \<in> set ?w. getRank c \<in> set ranks" "straightSpec ?w"
    by code_simp+
  have g: "length ?g = 5" "\<forall>c \<in> set ?g. getRank c \<in> set ranks" "\<not> straightSpec ?g"
    by code_simp+
  from isStraight_iff_spec[OF w(1,2)] w(3) have "isStraight ?w" by simp
  moreover from isStraight_iff_spec[OF g(1,2)] g(3) have "\<not> isStraight ?g" by simp
  ultimately show ?thesis by simp
qed

text \<open>
  C3: a hand whose ranks are A, 2, 3, 4, 5 is a StraightFlush when all its cards share a
  suit and a Straight otherwise, never a HighCard; the two hands of the examples give
  StraightFlush and Straight.
\<close>

theorem wheel_classification:
  "(mset (map getRank hand) = mset (map str [''A'', ''2'', ''3'', ''4'', ''5'']) \<longrightarrow>
      getPokerHandRank hand =
        (if \<exists>s. \<forall>c \<in> set hand. getSuit c = s then PokerRank StraightFlush
         else PokerRank Straight) \<and>
      getPokerHandRank hand \<noteq> PokerRank HighCard) \<and>
   getPokerHandRank [token ''A'' spades, token ''4'' spades, token ''3'' spades,
                     token ''5'' spades, token ''2'' spades] = PokerRank StraightFlush \<and>
   getPokerHandRank [token ''2'' hearts, token ''4'' diamonds, token ''5'' hearts,
                     token ''A'' diamonds, token ''3'' spades] = PokerRank Straight"
proof -
  have "getPokerHandRank [token ''A'' spades, token ''4'' spades, token ''3'' spades,
                     token ''5'' spades, token ''2'' spades] = PokerRank StraightFlush"
    by code_simp
  moreover have "getPokerHandRank [token ''2'' hearts, token ''4'' diamonds, token ''5'' hearts,
                     token ''A'' diamonds, token ''3'' spades] = PokerRank Straight"
    by code_simp
  ultimately show ?thesis using wheel_rank[of hand] by simp
qed

theorem wheel_classification_witness:
  "getPokerHandRank [token ''5'' clubs, token ''A'' clubs, token ''2'' diamonds,
                     token ''3'' clubs, token ''4'' clubs] = PokerRank Straight"
proof -
  let ?h = "[token ''5'' clubs, token ''A'' clubs, token ''2'' diamonds,
             token ''3'' clubs, token ''4'' clubs]"
  have m: "mset (map getRank ?h) = mset (map str [''A'', ''2'', ''3'', ''4'', ''5''])"
    by (simp add: getRank_butlast token_def str_def clubs_def diamonds_def)
  have "\<not> (\<exists>s. \<forall>c \<in> set ?h. getSuit c = s)"
    by (simp add: getSuit_last token_def str_def clubs_def diamonds_def)
  with wheel_classification[of ?h] m show ?thesis by simp
qed

text \<open>
  C4: for a hand of five tokens with ranks of the table, \<open>isFlush\<close> is true exactly when
  the suit-multiplicity map has a single key, with count 5, and exactly when all five
  cards have the same suit.
\<close>

theorem isFlush_iff_one_suit:
  assumes "length hand = 5" and "\<forall>c \<in> set hand. getRank c \<in> set ranks"
  shows "(isFlush hand \<longleftrightarrow> (\<exists>s. countSuites hand = [(s, 5)])) \<and>
         (isFlush hand \<longleftrightarrow> (\<exists>s. \<forall>c \<in> set hand. getSuit c = s))"
  using isFlush_single_key[OF assms] isFlush_same_suit[OF assms] by simp

theorem isFlush_iff_one_suit_witness:
  "isFlush [token ''4'' clubs, token ''5'' clubs, token ''6'' clubs, token ''7'' clubs,
            token ''Q'' clubs] \<and>
   \<not> isFlush [token ''2'' spades, token ''3'' hearts, token ''4'' hearts, token ''5'' hearts,
            token ''6'' hearts]"
proof -
  let ?f = "[token ''4'' clubs, token ''5'' clubs, token ''6'' clubs, token ''7'' clubs,
             token ''Q'' clubs]"
  let ?g = "[token ''2'' spades, token ''3'' hearts, token ''4'' hearts, token ''5'' hearts,
             token ''6'' hearts]"
  have f: "length ?f = 5" "\<forall>c \<in> set ?f. getRank c \<in> set ranks" by code_simp+
  have g: "length ?g = 5" "\<forall>c \<in> set ?g. getRank c \<in> set ranks" by code_simp+
  have "countSuites ?f = [(clubs, 5)]" by code_simp
  with isFlush_iff_one_suit[OF f] have "isFlush ?f" by blast
  moreover have "\<not> (\<exists>s. \<forall>c \<in> set ?g. getSuit c = s)"
    by (simp add: getSuit_last token_def str_def spades_def hearts_def)
  with isFlush_iff_one_suit[OF g] have "\<not> isFlush ?g" by blast
  ultimately show ?thesis by simp
qed

text \<open>
  C5: on a hand of five tokens, one rank of multiplicity 3 together with one rank of
  multiplicity 2 gives FullHouse and not ThreeOfKind; ThreeOfKind is returned only when one
  rank has multiplicity 3 and no rank has multiplicity 2.
\<close>

theorem full_house_not_three:
  assumes "length hand = 5"
  shows "(isThreeOfKind hand = 1 \<and> isPairs hand = 1 \<longrightarrow>
            getPokerHandRank hand = PokerRank FullHouse \<and>
            getPokerHandRank hand \<noteq> PokerRank ThreeOfKind) \<and>
         (getPokerHandRank hand = PokerRank ThreeOfKind \<longrightarrow>
            isThreeOfKind hand = 1 \<and> isPairs hand = 0)"
  using full_house[OF assms] three_of_kind_only[OF assms] by auto

theorem full_house_not_three_witness:
  "getPokerHandRank [token ''4'' clubs, token ''4'' diamonds, token ''5'' diamonds,
                     token ''5'' spades, token ''5'' hearts] = PokerRank FullHouse \<and>
   isPairs [token ''2'' hearts, token ''2'' spades, token ''2'' diamonds, token ''7'' hearts,
            token ''A'' hearts] = 0"
proof -
  let ?f = "[token ''4'' clubs, token ''4'' diamonds, token ''5'' diamonds,
             token ''5'' spades, token ''5'' hearts]"
  let ?t = "[token ''2'' hearts, token ''2'' spades, token ''2'' diamonds, token ''7'' hearts,
             token ''A'' hearts]"
  have f: "length ?f = 5" "isThreeOfKind ?f = 1" "isPairs ?f = 1" by code_simp+
  have t: "length ?t = 5" "getPokerHandRank ?t = PokerRank ThreeOfKind" by code_simp+
  from full_house_not_three[OF f(1)] f(2,3) have "getPokerHandRank ?f = PokerRank FullHouse"
    by blast
  moreover from full_house_not_three[OF t(1)] t(2) have "isPairs ?t = 0" by blast
  ultimately show ?thesis by simp
qed

text \<open>
  C6: a hand and any reordering of it (the same multiset of tokens) get the same
  category. This holds for hands of every length.
\<close>

theorem getPokerHandRank_permutation:
  assumes "mset hand' = mset hand"
  shows "getPokerHandRank hand' = getPokerHandRank hand"
  using assms by (rule getPokerHandRank_perm)

theorem getPokerHandRank_permutation_witness:
  "getPokerHandRank [token ''A'' spades, token ''3'' hearts, token ''3'' diamonds,
                     token ''10'' hearts, token ''4'' hearts] =
   getPokerHandRank [token ''3'' hearts, token ''4'' hearts, token ''10'' hearts,
                     token ''3'' diamonds, token ''A'' spades]"
proof -
  have "mset [token ''A'' spades, token ''3'' hearts, token ''3'' diamonds,
              token ''10'' hearts, token ''4'' hearts] =
        mset [token ''3'' hearts, token ''4'' hearts, token ''10'' hearts,
              token ''3'' diamonds, token ''A'' spades]"
    by simp
  then show ?thesis by (rule getPokerHandRank_permutation)
qed

text \<open>
  C7: \<open>getPokerHandRank\<close> has no failure path: on every array of strings it returns the
  value of exactly one of the nine categories, an integer from 0 (HighCard, the lowest)
  to 8 (StraightFlush, the highest). Every function of the model is total, as every loop
  of the source runs over a finite array.
\<close>

theorem getPokerHandRank_total:
  "(\<exists>!n. getPokerHandRank hand = PokerRank n) \<and>
   0 \<le> getPokerHandRank hand \<and> getPokerHandRank hand \<le> 8 \<and>
   (\<forall>n. PokerRank HighCard \<le> PokerRank n \<and> PokerRank n \<le> PokerRank StraightFlush)"
proof -
  have inj: "PokerRank m = PokerRank n \<Longrightarrow> m = n" for m n
    by (cases m; cases n) simp_all
  have branch: "x \<in> A \<Longrightarrow> y \<in> A \<Longrightarrow> (if c then x else y) \<in> A" for x y :: int and A c
    by simp
  have "getPokerHandRank hand \<in> range PokerRank"
    unfolding getPokerHandRank_def by (intro branch rangeI)
  then have "\<exists>n. getPokerHandRank hand = PokerRank n" by blast
  with inj have "\<exists>!n. getPokerHandRank hand = PokerRank n" by metis
  moreover have "0 \<le> PokerRank n \<and> PokerRank n \<le> 8" for n
    by (cases n) simp_all
  ultimately show ?thesis by (metis PokerRank.simps(1,9))
qed

text \<open>
  C8, as amended: the parsing stage never fails. It returns the rank and suit substrings of
  exactly the tokens whose rank substring is in the rank table; a token with another rank
  is dropped without an error, and no suit substring is checked.
\<close>

theorem parseHand_drops_unknown_ranks:
  "\<exists>rs ss. parseHand hand = Inr (rs, ss) \<and>
     mset rs = image_mset getRank (filter_mset (\<lambda>c. getRank c \<in> set ranks) (mset hand)) \<and>
     mset ss = image_mset getSuit (filter_mset (\<lambda>c. getRank c \<in> set ranks) (mset hand))"
  by (simp add: parseHand_def rankArray_def suitArray_def mset_sortedHand)

text \<open>
  C8 as stated fails: the token \<^verbatim>\<open>1\<close> of spades has no rank of the table, a token ending
  in \<^verbatim>\<open>x\<close> has no suit of the specification, and in both cases the parsing stage returns
  arrays instead of failing with \<open>MalformedCardError\<close>.
\<close>

theorem parseHand_unknown_rank_counterexample:
  "getRank (token ''1'' spades) \<notin> set ranks \<and>
   parseHand [token ''1'' spades, token ''2'' spades, token ''3'' spades, token ''4'' spades,
              token ''5'' spades] \<noteq> Inl MalformedCardError \<and>
   parseHand [token ''1'' spades, token ''2'' spades, token ''3'' spades, token ''4'' spades,
              token ''5'' spades] =
     Inr ([str ''2'', str ''3'', str ''4'', str ''5''], [spades, spades, spades, spades]) \<and>
   getSuit (str ''Kx'') \<notin> set suits \<and>
   parseHand [str ''Kx'', token ''2'' spades, token ''3'' spades, token ''4'' spades,
              token ''5'' spades] =
     Inr ([str ''2'', str ''3'', str ''4'', str ''5'', str ''K''],
          [spades, spades, spades, spades, str ''x''])"
  by code_simp

text \<open>
  C9, as amended: for a hand of five tokens with ranks of the table and suits of the
  specification, the rank-multiplicity map has between 1 and 5 keys, the suit-multiplicity
  map has between 1 and 4 keys, and the counts of each map sum to 5.
\<close>

theorem multiplicity_maps:
  assumes "length hand = 5"
    and "\<forall>c \<in> set hand. getRank c \<in> set ranks \<and> getSuit c \<in> set suits"
  shows "1 \<le> length (Object_keys (countRanks hand)) \<and>
         length (Object_keys (countRanks hand)) \<le> 5 \<and>
         sum_list (map snd (countRanks hand)) = 5 \<and>
         1 \<le> length (Object_keys (countSuites hand)) \<and>
         length (Object_keys (countSuites hand)) \<le> 4 \<and>
         sum_list (map snd (countSuites hand)) = 5"
  using key_counts[OF assms] by simp

theorem multiplicity_maps_witness:
  "length (Object_keys (countRanks [token ''3'' hearts, token ''4'' hearts, token ''10'' hearts,
      token ''3'' diamonds, token ''A'' spades])) \<le> 5 \<and>
   sum_list (map snd (countSuites [token ''3'' hearts, token ''4'' hearts, token ''10'' hearts,
      token ''3'' diamonds, token ''A'' spades])) = 5"
proof -
  let ?h = "[token ''3'' hearts, token ''4'' hearts, token ''10'' hearts,
             token ''3'' diamonds, token ''A'' spades]"
  have l: "length ?h = 5" by simp
  have "list_all (\<lambda>c. getRank c \<in> set ranks \<and> getSuit c \<in> set suits) ?h" by code_simp
  then have v: "\<forall>c \<in> set ?h. getRank c \<in> set ranks \<and> getSuit c \<in> set suits"
    by (simp only: list_all_iff)
  from multiplicity_maps[OF l v] show ?thesis by simp
qed

text \<open>
  C9 as stated fails: a hand of five different ranks has five keys in its
  rank-multiplicity map, not at most four.
\<close>

theorem rank_keys_counterexample:
  "length [token ''A'' hearts, token ''K'' hearts, token ''Q'' hearts, token ''2'' diamonds,
           token ''3'' spades] = 5 \<and>
   distinct [token ''A'' hearts, token ''K'' hearts, token ''Q'' hearts, token ''2'' diamonds,
           token ''3'' spades] \<and>
   list_all (\<lambda>c. getRank c \<in> set ranks \<and> getSuit c \<in> set suits)
     [token ''A'' hearts, token ''K'' hearts, token ''Q'' hearts, token ''2'' diamonds,
      token ''3'' spades] \<and>
   length (Object_keys (countRanks [token ''A'' hearts, token ''K'' hearts, token ''Q'' hearts,
      token ''2'' diamonds, token ''3'' spades])) = 5 \<and>
   \<not> length (Object_keys (countRanks [token ''A'' hearts, token ''K'' hearts, token ''Q'' hearts,
      token ''2'' diamonds, token ''3'' spades])) \<le> 4"
  by code_simp

text \<open>
  C10: the concatenated sorted ranks of a hand never equal \<^verbatim>\<open>'AKQJ10'\<close>, so
  \<open>isStraight\<close> without that disjunct returns the same boolean on every hand; the high
  straight 10-J-Q-K-A is accepted by the comparison with the window of the rank table.
\<close>

theorem high_disjunct_unreachable:
  "section_of hand \<noteq> str ''AKQJ10'' \<and> isStraight hand = isStraight_noHigh hand \<and>
   (mset (map getRank hand) = mset (map str [''10'', ''J'', ''Q'', ''K'', ''A'']) \<longrightarrow>
      section_of hand = straightRef hand \<and> isStraight_noHigh hand)"
  using section_not_high[of hand] high_straight_by_window[of hand]
  by (auto simp: isStraight_def isStraight_noHigh_def Let_def)

theorem high_disjunct_unreachable_witness:
  "isStraight_noHigh [token ''K'' hearts, token ''10'' spades, token ''A'' hearts,
                      token ''J'' clubs, token ''Q'' hearts] \<and>
   isStraight [token ''K'' hearts, token ''10'' spades, token ''A'' hearts,
                      token ''J'' clubs, token ''Q'' hearts]"
proof -
  let ?h = "[token ''K'' hearts, token ''10'' spades, token ''A'' hearts,
             token ''J'' clubs, token ''Q'' hearts]"
  have "mset (map getRank ?h) = mset (map str [''10'', ''J'', ''Q'', ''K'', ''A''])"
    by (simp add: getRank_butlast token_def str_def hearts_def spades_def clubs_def)
  with high_disjunct_unreachable[of ?h] show ?thesis by simp
qed

end
